theory Spec2Isabelle
  imports Main
begin

section \<open>The gallery slideshow of \<^verbatim>\<open>src/js/main.js\<close>\<close>

text \<open>
  The carousel is the closure created by \<^verbatim>\<open>initGallerySlideshow\<close>: three mutable
  variables (\<^verbatim>\<open>currentIndex\<close>, \<^verbatim>\<open>autoSlideInterval\<close>, \<^verbatim>\<open>isTransitioning\<close>), the
  constant image list, and the functions \<^verbatim>\<open>initializeTrack\<close>,
  \<^verbatim>\<open>updateTrackPosition\<close>, \<^verbatim>\<open>nextSlide\<close>, \<^verbatim>\<open>prevSlide\<close> and \<^verbatim>\<open>restartAutoSlide\<close>.
  Everything they touch is gathered in one record: the part of the document they read
  and write, the browser's timer tables, and the closure variables. Every function of
  the source becomes a function from page to page.

  JavaScript numbers are doubles; the index only ever takes small integral values, on
  which doubles are exact, so it is an \<open>int\<close>. Times are milliseconds.
\<close>

subsection \<open>Data\<close>

record img =
  src :: string
  alt :: string
  className :: string

record interval_timer =
  handle :: nat
  period :: nat
  due :: nat

record page =
  \<comment> \<open>the document: results of the three \<^verbatim>\<open>getElementById\<close> calls (non-null or null)\<close>
  galleryTrack :: bool
  galleryPrev :: bool
  galleryNext :: bool
  \<comment> \<open>children, \<^verbatim>\<open>style.transition\<close> and \<^verbatim>\<open>style.transform\<close> of the track;
      \<open>Some x\<close> stands for \<^verbatim>\<open>translateX(x%)\<close>\<close>
  innerHTML :: "img list"
  styleTransition :: string
  styleTransform :: "int option"
  \<comment> \<open>whether the click listener of each button has been bound\<close>
  nextClick :: bool
  prevClick :: bool
  \<comment> \<open>the event loop: current time, due times of the pending \<^verbatim>\<open>setTimeout\<close>
      callbacks in creation order, the live \<^verbatim>\<open>setInterval\<close> timers, the next handle\<close>
  clock :: nat
  timeouts :: "nat list"
  intervals :: "interval_timer list"
  nextHandle :: nat
  \<comment> \<open>the closure variables\<close>
  images :: "string list"
  currentIndex :: int
  autoSlideInterval :: "nat option"
  isTransitioning :: bool

text \<open>The image list of the source (lines 204-210).\<close>

definition galleryImages :: "string list" where
  "galleryImages =
     [''assets/images/Gallery/gallery-1.png'',
      ''assets/images/Gallery/gallery-2.png'',
      ''assets/images/Gallery/gallery-3.png'',
      ''assets/images/Gallery/gallery-4.png'',
      ''assets/images/Gallery/gallery-5.png'']"

text \<open>A page on which nothing has run yet; the three flags say which elements exist.\<close>

definition blank :: "bool \<Rightarrow> bool \<Rightarrow> bool \<Rightarrow> page" where
  "blank track prev nxt =
     \<lparr>galleryTrack = track, galleryPrev = prev, galleryNext = nxt,
      innerHTML = [], styleTransition = [], styleTransform = None,
      nextClick = False, prevClick = False,
      clock = 0, timeouts = [], intervals = [], nextHandle = 1,
      images = [], currentIndex = 0, autoSlideInterval = None, isTransitioning = False\<rparr>"

subsection \<open>The browser's timers\<close>

text \<open>
  \<^verbatim>\<open>setTimeout(f, ms)\<close> queues one callback due \<open>ms\<close> from now. Every callback the
  carousel queues is the same arrow function (its body does not mention \<^verbatim>\<open>instant\<close>),
  so a pending timeout is its due time. \<^verbatim>\<open>setInterval(f, ms)\<close> registers a recurring
  timer and returns its handle; \<^verbatim>\<open>clearInterval(h)\<close> removes it, and does nothing for
  \<^verbatim>\<open>undefined\<close>.
\<close>

definition setTimeout :: "nat \<Rightarrow> page \<Rightarrow> page" where
  "setTimeout ms s = s\<lparr>timeouts := timeouts s @ [clock s + ms]\<rparr>"

definition setInterval :: "nat \<Rightarrow> page \<Rightarrow> nat \<times> page" where
  "setInterval ms s =
     (nextHandle s,
      s\<lparr>intervals := intervals s @ [\<lparr>handle = nextHandle s, period = ms, due = clock s + ms\<rparr>],
        nextHandle := nextHandle s + 1\<rparr>)"

definition clearInterval :: "nat option \<Rightarrow> page \<Rightarrow> page" where
  "clearInterval h s =
     (case h of
        None \<Rightarrow> s
      | Some i \<Rightarrow> s\<lparr>intervals := filter (\<lambda>t. handle t \<noteq> i) (intervals s)\<rparr>)"

subsection \<open>The functions of the closure\<close>

text \<open>Decimal rendering of a number inside a template string.\<close>

fun decimal :: "nat \<Rightarrow> string" where
  "decimal n =
     (if n < 10 then [''0123456789'' ! n]
      else decimal (n div 10) @ [''0123456789'' ! (n mod 10)])"

declare decimal.simps [simp del]

definition initializeTrack :: "page \<Rightarrow> page" where
  "initializeTrack s =
     (let imagesToShow = images s @ images s @ images s in
      s\<lparr>innerHTML :=
          map (\<lambda>(imageSrc, index).
                 \<lparr>src = imageSrc,
                  alt = ''Gallery image '' @ decimal ((index mod length (images s)) + 1),
                  className = ''gallery-image''\<rparr>)
              (zip imagesToShow [0 ..< length imagesToShow])\<rparr>)"

definition updateTrackPosition :: "bool \<Rightarrow> page \<Rightarrow> page" where
  "updateTrackPosition instant s =
     (if isTransitioning s \<and> \<not> instant then s
      else
        let s1 = s\<lparr>isTransitioning := True\<rparr>;
            translateX = - (currentIndex s1 * 100);
            s2 = s1\<lparr>styleTransition :=
                      (if instant then ''none''
                       else ''transform 1.2s cubic-bezier(0.4, 0, 0.2, 1)'')\<rparr>;
            s3 = s2\<lparr>styleTransform := Some translateX\<rparr>
        in setTimeout (if instant then 0 else 1200) s3)"

text \<open>The arrow function handed to \<^verbatim>\<open>setTimeout\<close> (lines 242-255).\<close>

definition timeoutCallback :: "page \<Rightarrow> page" where
  "timeoutCallback s0 =
     (let s = s0\<lparr>isTransitioning := False\<rparr>;
          n = int (length (images s))
      in if currentIndex s \<ge> n * 2 then
           updateTrackPosition True (s\<lparr>currentIndex := currentIndex s - n\<rparr>)
         else if currentIndex s < n then
           updateTrackPosition True (s\<lparr>currentIndex := n + currentIndex s\<rparr>)
         else s)"

definition nextSlide :: "page \<Rightarrow> page" where
  "nextSlide s =
     (if isTransitioning s then s
      else updateTrackPosition False (s\<lparr>currentIndex := currentIndex s + 1\<rparr>))"

definition prevSlide :: "page \<Rightarrow> page" where
  "prevSlide s =
     (if isTransitioning s then s
      else updateTrackPosition False (s\<lparr>currentIndex := currentIndex s - 1\<rparr>))"

definition restartAutoSlide :: "page \<Rightarrow> page" where
  "restartAutoSlide s =
     (let s1 = clearInterval (autoSlideInterval s) s;
          (h, s2) = setInterval 5000 s1
      in s2\<lparr>autoSlideInterval := Some h\<rparr>)"

text \<open>The two click listeners (lines 284-287 and 291-294).\<close>

definition nextButtonClick :: "page \<Rightarrow> page" where
  "nextButtonClick s = restartAutoSlide (nextSlide s)"

definition prevButtonClick :: "page \<Rightarrow> page" where
  "prevButtonClick s = restartAutoSlide (prevSlide s)"

text \<open>
  \<^verbatim>\<open>initGallerySlideshow\<close>, with the image list as a parameter; the source's function
  is the instance at \<open>galleryImages\<close>.
\<close>

definition initGallerySlideshowWith :: "string list \<Rightarrow> page \<Rightarrow> page" where
  "initGallerySlideshowWith imgs p =
     (if \<not> galleryTrack p then p
      else
        let s0 = p\<lparr>images := imgs, currentIndex := int (length imgs),
                   autoSlideInterval := None, isTransitioning := False\<rparr>;
            s1 = initializeTrack s0;
            s2 = updateTrackPosition False s1;
            s3 = (if galleryNext s2 then s2\<lparr>nextClick := True\<rparr> else s2);
            s4 = (if galleryPrev s3 then s3\<lparr>prevClick := True\<rparr> else s3)
        in restartAutoSlide s4)"

definition initGallerySlideshow :: "page \<Rightarrow> page" where
  "initGallerySlideshow = initGallerySlideshowWith galleryImages"

subsection \<open>The event loop\<close>

text \<open>
  The closure is entered only through its listeners and timers. An event is a click on
  a button, a pending timeout running (the \<open>i\<close>-th of the queue, once it is due), a
  live interval timer firing (once it is due; it is then due again one period later),
  or time passing. A timer never runs early; it may run late. An event that cannot
  happen in the current state yields \<open>None\<close>.
\<close>

datatype event = ClickNext | ClickPrev | Timeout nat | Interval nat | Elapse nat

fun step :: "event \<Rightarrow> page \<Rightarrow> page option" where
  "step ClickNext s = Some (if nextClick s then nextButtonClick s else s)"
| "step ClickPrev s = Some (if prevClick s then prevButtonClick s else s)"
| "step (Timeout i) s =
     (if i < length (timeouts s) \<and> timeouts s ! i \<le> clock s then
        Some (timeoutCallback (s\<lparr>timeouts := take i (timeouts s) @ drop (Suc i) (timeouts s)\<rparr>))
      else None)"
| "step (Interval h) s =
     (case find (\<lambda>t. handle t = h) (intervals s) of
        None \<Rightarrow> None
      | Some t \<Rightarrow>
          if due t \<le> clock s then
            Some (nextSlide
                   (s\<lparr>intervals :=
                        map (\<lambda>u. if handle u = h then u\<lparr>due := clock s + period u\<rparr> else u)
                            (intervals s)\<rparr>))
          else None)"
| "step (Elapse d) s = Some (s\<lparr>clock := clock s + d\<rparr>)"

fun run :: "event list \<Rightarrow> page \<Rightarrow> page option" where
  "run [] s = Some s"
| "run (e # es) s = (case step e s of None \<Rightarrow> None | Some s' \<Rightarrow> run es s')"

text \<open>
  Settling: the pending timeouts run, oldest first, each at its due time, until none is
  left. A callback may queue another one, so the loop is bounded by fuel; running out
  of fuel is \<open>None\<close>.
\<close>

fun settle :: "nat \<Rightarrow> page \<Rightarrow> page option" where
  "settle fuel s =
     (case timeouts s of
        [] \<Rightarrow> Some s
      | t # ts \<Rightarrow>
          (case fuel of
             0 \<Rightarrow> None
           | Suc k \<Rightarrow> settle k (timeoutCallback (s\<lparr>clock := max (clock s) t, timeouts := ts\<rparr>))))"

declare settle.simps [simp del]

subsection \<open>The invariant of the running carousel\<close>

text \<open>
  With \<open>N\<close> the number of images: at most one timeout is pending, and one is pending
  exactly while the flag is set; the index stays within \<open>[N - 1, 2N]\<close>; it is inside
  the middle copy \<open>[N, 2N)\<close> whenever the flag is clear or the last positioning was an
  instant one; the only live interval timer is the one whose handle the closure holds,
  and its period is 5000 ms.
\<close>

definition in_middle :: "page \<Rightarrow> bool" where
  "in_middle s \<longleftrightarrow>
     int (length (images s)) \<le> currentIndex s \<and> currentIndex s < 2 * int (length (images s))"

definition carousel_inv :: "page \<Rightarrow> bool" where
  "carousel_inv s \<longleftrightarrow>
     length (timeouts s) \<le> 1 \<and>
     (isTransitioning s \<longleftrightarrow> timeouts s \<noteq> []) \<and>
     int (length (images s)) - 1 \<le> currentIndex s \<and>
     currentIndex s \<le> 2 * int (length (images s)) \<and>
     (\<not> isTransitioning s \<or> styleTransition s = ''none'' \<longrightarrow> in_middle s)"

definition timer_inv :: "page \<Rightarrow> bool" where
  "timer_inv s \<longleftrightarrow>
     (\<exists>h d. autoSlideInterval s = Some h \<and>
            intervals s = [\<lparr>handle = h, period = 5000, due = d\<rparr>])"

text \<open>No live timer is due before \<open>T\<close>, and a timer registered now would not be either.\<close>

definition not_before :: "nat \<Rightarrow> page \<Rightarrow> bool" where
  "not_before T s \<longleftrightarrow> (\<forall>t \<in> set (intervals s). T \<le> due t) \<and> T \<le> clock s + 5000"

text \<open>Concrete pages used as examples.\<close>

definition opened :: page where
  "opened = initGallerySlideshow (blank True True True)"

definition rested :: page where
  "rested = the (run [Elapse 1200, Timeout 0] opened)"

definition stepped_back :: page where
  "stepped_back = the (run [ClickPrev] rested)"

definition last_item :: page where
  "last_item = the (run [Elapse 1200, Timeout 0, Timeout 0] stepped_back)"

definition past_end :: page where
  "past_end = nextSlide last_item"

definition tick_due :: page where
  "tick_due = the (run [Elapse 3800] rested)"

definition before_click :: page where
  "before_click = the (run [Elapse 3700] rested)"

definition after_click :: page where
  "after_click = the (step ClickNext before_click)"

definition period_later :: page where
  "period_later = the (run [Elapse 5000] after_click)"

section \<open>How each function changes the page\<close>

lemma updateTrackPosition_fields [simp]:
  "images (updateTrackPosition b s) = images s"
  "currentIndex (updateTrackPosition b s) = currentIndex s"
  "intervals (updateTrackPosition b s) = intervals s"
  "autoSlideInterval (updateTrackPosition b s) = autoSlideInterval s"
  "clock (updateTrackPosition b s) = clock s"
  "nextHandle (updateTrackPosition b s) = nextHandle s"
  "nextClick (updateTrackPosition b s) = nextClick s"
  "prevClick (updateTrackPosition b s) = prevClick s"
  "innerHTML (updateTrackPosition b s) = innerHTML s"
  "galleryNext (updateTrackPosition b s) = galleryNext s"
  "galleryPrev (updateTrackPosition b s) = galleryPrev s"
  by (simp_all add: updateTrackPosition_def setTimeout_def Let_def)

lemma updateTrackPosition_flag [simp]: "isTransitioning (updateTrackPosition b s)"
  by (simp add: updateTrackPosition_def setTimeout_def Let_def)

lemma updateTrackPosition_run:
  "\<not> isTransitioning s \<or> b \<Longrightarrow>
   timeouts (updateTrackPosition b s) = timeouts s @ [clock s + (if b then 0 else 1200)] \<and>
   styleTransition (updateTrackPosition b s) =
     (if b then ''none'' else ''transform 1.2s cubic-bezier(0.4, 0, 0.2, 1)'') \<and>
   styleTransform (updateTrackPosition b s) = Some (- (currentIndex s * 100))"
  by (auto simp add: updateTrackPosition_def setTimeout_def Let_def)

lemma timeoutCallback_fields [simp]:
  "images (timeoutCallback s) = images s"
  "intervals (timeoutCallback s) = intervals s"
  "autoSlideInterval (timeoutCallback s) = autoSlideInterval s"
  "clock (timeoutCallback s) = clock s"
  "nextHandle (timeoutCallback s) = nextHandle s"
  "nextClick (timeoutCallback s) = nextClick s"
  "prevClick (timeoutCallback s) = prevClick s"
  "innerHTML (timeoutCallback s) = innerHTML s"
  by (simp_all add: timeoutCallback_def Let_def)

lemma timeoutCallback_high:
  "2 * int (length (images s)) \<le> currentIndex s \<Longrightarrow>
   currentIndex (timeoutCallback s) = currentIndex s - int (length (images s)) \<and>
   isTransitioning (timeoutCallback s) \<and>
   styleTransition (timeoutCallback s) = ''none'' \<and>
   styleTransform (timeoutCallback s) =
     Some (- ((currentIndex s - int (length (images s))) * 100)) \<and>
   timeouts (timeoutCallback s) = timeouts s @ [clock s + 0]"
  by (simp add: timeoutCallback_def Let_def updateTrackPosition_run)

lemma timeoutCallback_low:
  "currentIndex s < int (length (images s)) \<Longrightarrow>
   \<not> 2 * int (length (images s)) \<le> currentIndex s \<Longrightarrow>
   currentIndex (timeoutCallback s) = int (length (images s)) + currentIndex s \<and>
   isTransitioning (timeoutCallback s) \<and>
   styleTransition (timeoutCallback s) = ''none'' \<and>
   styleTransform (timeoutCallback s) =
     Some (- ((int (length (images s)) + currentIndex s) * 100)) \<and>
   timeouts (timeoutCallback s) = timeouts s @ [clock s + 0]"
  by (simp add: timeoutCallback_def Let_def updateTrackPosition_run)

lemma timeoutCallback_mid:
  "int (length (images s)) \<le> currentIndex s \<Longrightarrow>
   currentIndex s < 2 * int (length (images s)) \<Longrightarrow>
   timeoutCallback s = s\<lparr>isTransitioning := False\<rparr>"
  by (simp add: timeoutCallback_def Let_def)

lemma nextSlide_fields [simp]:
  "images (nextSlide s) = images s"
  "intervals (nextSlide s) = intervals s"
  "autoSlideInterval (nextSlide s) = autoSlideInterval s"
  "clock (nextSlide s) = clock s"
  "nextHandle (nextSlide s) = nextHandle s"
  "nextClick (nextSlide s) = nextClick s"
  "prevClick (nextSlide s) = prevClick s"
  by (simp_all add: nextSlide_def)

lemma prevSlide_fields [simp]:
  "images (prevSlide s) = images s"
  "intervals (prevSlide s) = intervals s"
  "autoSlideInterval (prevSlide s) = autoSlideInterval s"
  "clock (prevSlide s) = clock s"
  "nextHandle (prevSlide s) = nextHandle s"
  "nextClick (prevSlide s) = nextClick s"
  "prevClick (prevSlide s) = prevClick s"
  by (simp_all add: prevSlide_def)

lemma nextSlide_idle:
  "\<not> isTransitioning s \<Longrightarrow>
   currentIndex (nextSlide s) = currentIndex s + 1 \<and>
   isTransitioning (nextSlide s) \<and>
   styleTransition (nextSlide s) = ''transform 1.2s cubic-bezier(0.4, 0, 0.2, 1)'' \<and>
   styleTransform (nextSlide s) = Some (- ((currentIndex s + 1) * 100)) \<and>
   timeouts (nextSlide s) = timeouts s @ [clock s + 1200]"
  by (simp add: nextSlide_def updateTrackPosition_run)

lemma prevSlide_idle:
  "\<not> isTransitioning s \<Longrightarrow>
   currentIndex (prevSlide s) = currentIndex s - 1 \<and>
   isTransitioning (prevSlide s) \<and>
   styleTransition (prevSlide s) = ''transform 1.2s cubic-bezier(0.4, 0, 0.2, 1)'' \<and>
   styleTransform (prevSlide s) = Some (- ((currentIndex s - 1) * 100)) \<and>
   timeouts (prevSlide s) = timeouts s @ [clock s + 1200]"
  by (simp add: prevSlide_def updateTrackPosition_run)

lemma restartAutoSlide_fields [simp]:
  "images (restartAutoSlide s) = images s"
  "currentIndex (restartAutoSlide s) = currentIndex s"
  "isTransitioning (restartAutoSlide s) = isTransitioning s"
  "timeouts (restartAutoSlide s) = timeouts s"
  "styleTransition (restartAutoSlide s) = styleTransition s"
  "styleTransform (restartAutoSlide s) = styleTransform s"
  "clock (restartAutoSlide s) = clock s"
  "nextClick (restartAutoSlide s) = nextClick s"
  "prevClick (restartAutoSlide s) = prevClick s"
  "innerHTML (restartAutoSlide s) = innerHTML s"
  by (simp_all add: restartAutoSlide_def clearInterval_def setInterval_def split: option.splits)

lemma restartAutoSlide_timer:
  "autoSlideInterval (restartAutoSlide s) = Some (nextHandle s) \<and>
   nextHandle (restartAutoSlide s) = nextHandle s + 1 \<and>
   intervals (restartAutoSlide s) =
     (case autoSlideInterval s of
        None \<Rightarrow> intervals s
      | Some i \<Rightarrow> filter (\<lambda>t. handle t \<noteq> i) (intervals s))
     @ [\<lparr>handle = nextHandle s, period = 5000, due = clock s + 5000\<rparr>]"
  by (simp add: restartAutoSlide_def clearInterval_def setInterval_def split: option.splits)

lemma initializeTrack_fields [simp]:
  "images (initializeTrack s) = images s"
  "currentIndex (initializeTrack s) = currentIndex s"
  "isTransitioning (initializeTrack s) = isTransitioning s"
  "timeouts (initializeTrack s) = timeouts s"
  "intervals (initializeTrack s) = intervals s"
  "autoSlideInterval (initializeTrack s) = autoSlideInterval s"
  "nextHandle (initializeTrack s) = nextHandle s"
  "clock (initializeTrack s) = clock s"
  "nextClick (initializeTrack s) = nextClick s"
  "prevClick (initializeTrack s) = prevClick s"
  "galleryNext (initializeTrack s) = galleryNext s"
  "galleryPrev (initializeTrack s) = galleryPrev s"
  by (simp_all add: initializeTrack_def Let_def)

lemma initializeTrack_src:
  "map src (innerHTML (initializeTrack s)) = images s @ images s @ images s"
proof -
  have "map (src \<circ> (\<lambda>(imageSrc, index).
          \<lparr>src = imageSrc,
           alt = ''Gallery image '' @ decimal ((index mod length (images s)) + 1),
           className = ''gallery-image''\<rparr>)) (zip xs [0 ..< length xs]) = xs" for xs :: "string list"
  proof -
    have "(src \<circ> (\<lambda>(imageSrc, index).
          \<lparr>src = imageSrc,
           alt = ''Gallery image '' @ decimal ((index mod length (images s)) + 1),
           className = ''gallery-image''\<rparr>)) = fst"
      by (rule ext) (simp add: case_prod_beta)
    then show ?thesis by (simp add: map_fst_zip)
  qed
  from this[of "images s @ images s @ images s"] show ?thesis
    by (simp add: initializeTrack_def Let_def)
qed

lemma init_state:
  assumes "galleryTrack p"
  shows "images (initGallerySlideshowWith imgs p) = imgs"
    and "currentIndex (initGallerySlideshowWith imgs p) = int (length imgs)"
    and "isTransitioning (initGallerySlideshowWith imgs p)"
    and "styleTransition (initGallerySlideshowWith imgs p) =
           ''transform 1.2s cubic-bezier(0.4, 0, 0.2, 1)''"
    and "styleTransform (initGallerySlideshowWith imgs p) = Some (- (int (length imgs) * 100))"
    and "timeouts (initGallerySlideshowWith imgs p) = timeouts p @ [clock p + 1200]"
    and "intervals (initGallerySlideshowWith imgs p) =
           intervals p @ [\<lparr>handle = nextHandle p, period = 5000, due = clock p + 5000\<rparr>]"
    and "autoSlideInterval (initGallerySlideshowWith imgs p) = Some (nextHandle p)"
    and "nextClick (initGallerySlideshowWith imgs p) = (galleryNext p \<or> nextClick p)"
    and "prevClick (initGallerySlideshowWith imgs p) = (galleryPrev p \<or> prevClick p)"
    and "map src (innerHTML (initGallerySlideshowWith imgs p)) = imgs @ imgs @ imgs"
    and "clock (initGallerySlideshowWith imgs p) = clock p"
    and "nextHandle (initGallerySlideshowWith imgs p) = nextHandle p + 1"
  using assms initializeTrack_src[of "p\<lparr>images := imgs, currentIndex := int (length imgs),
                   autoSlideInterval := None, isTransitioning := False\<rparr>"]
  by (simp_all add: initGallerySlideshowWith_def Let_def updateTrackPosition_run
      restartAutoSlide_timer)

section \<open>Properties\<close>

subsection \<open>The invariant is established and preserved\<close>

lemma timer_inv_simps [simp]:
  "timer_inv (nextSlide s) = timer_inv s"
  "timer_inv (prevSlide s) = timer_inv s"
  "timer_inv (timeoutCallback s) = timer_inv s"
  "timer_inv (s\<lparr>clock := c\<rparr>) = timer_inv s"
  "timer_inv (s\<lparr>timeouts := ts\<rparr>) = timer_inv s"
  by (simp_all add: timer_inv_def)

lemma inv_init:
  "imgs \<noteq> [] \<Longrightarrow> carousel_inv (initGallerySlideshowWith imgs (blank True pb nb))"
proof -
  have p: "galleryTrack (blank True pb nb)" by (simp add: blank_def)
  show ?thesis
    by (simp add: carousel_inv_def init_state[OF p]) (simp add: blank_def)
qed

lemma timer_init: "timer_inv (initGallerySlideshowWith imgs (blank True pb nb))"
proof -
  have p: "galleryTrack (blank True pb nb)" by (simp add: blank_def)
  show ?thesis
    by (simp add: timer_inv_def init_state[OF p]) (simp add: blank_def)
qed

lemma inv_clock: "carousel_inv s \<Longrightarrow> carousel_inv (s\<lparr>clock := c\<rparr>)"
  by (simp add: carousel_inv_def in_middle_def)

lemma inv_nextSlide: "carousel_inv s \<Longrightarrow> carousel_inv (nextSlide s)"
proof (cases "isTransitioning s")
  case True
  assume "carousel_inv s"
  with True show ?thesis by (simp add: nextSlide_def)
next
  case False
  assume "carousel_inv s"
  with False nextSlide_idle[OF False] show ?thesis
    by (simp add: carousel_inv_def in_middle_def)
qed

lemma inv_prevSlide: "carousel_inv s \<Longrightarrow> carousel_inv (prevSlide s)"
proof (cases "isTransitioning s")
  case True
  assume "carousel_inv s"
  with True show ?thesis by (simp add: prevSlide_def)
next
  case False
  assume "carousel_inv s"
  with False prevSlide_idle[OF False] show ?thesis
    by (simp add: carousel_inv_def in_middle_def)
qed

lemma restartAutoSlide_single:
  assumes "timer_inv s"
  shows "intervals (restartAutoSlide s) =
           [\<lparr>handle = nextHandle s, period = 5000, due = clock s + 5000\<rparr>]"
proof -
  from assms obtain h d where h: "autoSlideInterval s = Some h"
    and i: "intervals s = [\<lparr>handle = h, period = 5000, due = d\<rparr>]"
    by (auto simp: timer_inv_def)
  with restartAutoSlide_timer[of s] show ?thesis by simp
qed

lemma timer_restartAutoSlide:
  assumes "timer_inv s"
  shows "timer_inv (restartAutoSlide s)"
proof -
  have "autoSlideInterval (restartAutoSlide s) = Some (nextHandle s)"
    using restartAutoSlide_timer[of s] by simp
  with restartAutoSlide_single[OF assms] show ?thesis
    by (simp add: timer_inv_def)
qed

lemma inv_restartAutoSlide: "carousel_inv s \<Longrightarrow> carousel_inv (restartAutoSlide s)"
  by (simp add: carousel_inv_def in_middle_def)

lemma timer_interval_fires:
  assumes "timer_inv s"
  shows "timer_inv (s\<lparr>intervals :=
           map (\<lambda>u. if handle u = h then u\<lparr>due := c + period u\<rparr> else u) (intervals s)\<rparr>)"
proof -
  from assms obtain k d where "autoSlideInterval s = Some k"
    and "intervals s = [\<lparr>handle = k, period = 5000, due = d\<rparr>]"
    by (auto simp: timer_inv_def)
  then show ?thesis by (simp add: timer_inv_def)
qed

lemma inv_timeoutCallback:
  assumes "images s \<noteq> []" "carousel_inv s" "timeouts s = [t]"
  shows "carousel_inv (timeoutCallback (s\<lparr>timeouts := []\<rparr>))"
    and "in_middle (timeoutCallback (s\<lparr>timeouts := []\<rparr>))"
proof -
  let ?s = "s\<lparr>timeouts := []\<rparr>"
  define n where "n = int (length (images s))"
  have n: "1 \<le> n" using assms(1) by (cases "images s") (simp_all add: n_def)
  have lo: "n - 1 \<le> currentIndex s" and hi: "currentIndex s \<le> 2 * n"
    using assms(2) by (simp_all add: carousel_inv_def n_def)
  consider "2 * n \<le> currentIndex s" | "currentIndex s < n"
    | "n \<le> currentIndex s" "currentIndex s < 2 * n"
    by linarith
  then have "carousel_inv (timeoutCallback ?s) \<and> in_middle (timeoutCallback ?s)"
  proof cases
    case 1
    then have "2 * int (length (images ?s)) \<le> currentIndex ?s" by (simp add: n_def)
    from timeoutCallback_high[OF this] 1 n lo hi assms(1) show ?thesis
      by (simp add: carousel_inv_def in_middle_def n_def)
  next
    case 2
    then have a: "currentIndex ?s < int (length (images ?s))" by (simp add: n_def)
    have b: "\<not> 2 * int (length (images ?s)) \<le> currentIndex ?s" using 2 n by (simp add: n_def)
    from timeoutCallback_low[OF a b] 2 n lo hi assms(1) show ?thesis
      by (simp add: carousel_inv_def in_middle_def n_def)
  next
    case 3
    then have "timeoutCallback ?s = ?s\<lparr>isTransitioning := False\<rparr>"
      by (intro timeoutCallback_mid) (simp_all add: n_def)
    with 3 show ?thesis
      by (simp add: carousel_inv_def in_middle_def n_def)
  qed
  then show "carousel_inv (timeoutCallback ?s)" and "in_middle (timeoutCallback ?s)"
    by simp_all
qed

lemma step_images: "step e s = Some s' \<Longrightarrow> images s' = images s"
  by (cases e) (auto simp: nextButtonClick_def prevButtonClick_def split: if_splits option.splits)

lemma timer_step:
  assumes "timer_inv s" "step e s = Some s'"
  shows "timer_inv s'"
proof (cases e)
  case ClickNext
  then show ?thesis using assms
    by (auto simp: nextButtonClick_def intro!: timer_restartAutoSlide)
next
  case ClickPrev
  then show ?thesis using assms
    by (auto simp: prevButtonClick_def intro!: timer_restartAutoSlide)
next
  case (Timeout i)
  then show ?thesis using assms by (auto split: if_splits)
next
  case (Interval h)
  from timer_interval_fires[OF assms(1), of h "clock s"] Interval assms(2)
  show ?thesis by (auto split: option.splits if_splits)
next
  case (Elapse d)
  then show ?thesis using assms by auto
qed

lemma inv_step:
  assumes "images s \<noteq> []" "carousel_inv s" "step e s = Some s'"
  shows "carousel_inv s'"
proof (cases e)
  case ClickNext
  then show ?thesis using assms
    by (auto simp: nextButtonClick_def intro!: inv_restartAutoSlide inv_nextSlide)
next
  case ClickPrev
  then show ?thesis using assms
    by (auto simp: prevButtonClick_def intro!: inv_restartAutoSlide inv_prevSlide)
next
  case (Timeout i)
  with assms(3) have i: "i < length (timeouts s)"
    and s': "s' = timeoutCallback (s\<lparr>timeouts := take i (timeouts s) @ drop (Suc i) (timeouts s)\<rparr>)"
    by (auto split: if_splits)
  from i assms(2) have "length (timeouts s) = 1" "i = 0" by (auto simp: carousel_inv_def)
  then obtain t where t: "timeouts s = [t]" by (cases "timeouts s") auto
  with s' \<open>i = 0\<close> have "s' = timeoutCallback (s\<lparr>timeouts := []\<rparr>)" by simp
  with inv_timeoutCallback(1)[OF assms(1,2) t] show ?thesis by simp
next
  case (Interval h)
  have "carousel_inv (s\<lparr>intervals :=
          map (\<lambda>u. if handle u = h then u\<lparr>due := clock s + period u\<rparr> else u) (intervals s)\<rparr>)"
    using assms(2) by (auto simp: carousel_inv_def in_middle_def)
  then show ?thesis using Interval assms(3)
    by (auto split: option.splits if_splits intro!: inv_nextSlide)
next
  case (Elapse d)
  then show ?thesis using assms by (auto simp: inv_clock)
qed

lemma inv_run:
  "images s \<noteq> [] \<Longrightarrow> carousel_inv s \<Longrightarrow> run es s = Some s' \<Longrightarrow>
   carousel_inv s' \<and> images s' = images s"
proof (induction es arbitrary: s)
  case Nil
  then show ?case by simp
next
  case (Cons e es)
  from Cons.prems(3) obtain s1 where s1: "step e s = Some s1" and r: "run es s1 = Some s'"
    by (auto split: option.splits)
  from inv_step[OF Cons.prems(1,2) s1] step_images[OF s1] Cons.prems(1) Cons.IH[OF _ _ r]
  show ?case by simp
qed

lemma timer_run: "timer_inv s \<Longrightarrow> run es s = Some s' \<Longrightarrow> timer_inv s'"
proof (induction es arbitrary: s)
  case Nil
  then show ?case by simp
next
  case (Cons e es)
  from Cons.prems(2) obtain s1 where s1: "step e s = Some s1" and r: "run es s1 = Some s'"
    by (auto split: option.splits)
  from Cons.IH[OF timer_step[OF Cons.prems(1) s1] r] show ?case .
qed

lemma inv_reachable:
  assumes "imgs \<noteq> []"
    and "run es (initGallerySlideshowWith imgs (blank True pb nb)) = Some s"
  shows "carousel_inv s" and "images s = imgs" and "timer_inv s"
proof -
  have p: "galleryTrack (blank True pb nb)" by (simp add: blank_def)
  have i: "images (initGallerySlideshowWith imgs (blank True pb nb)) = imgs"
    by (rule init_state(1)[OF p])
  from inv_run[OF _ inv_init[OF assms(1)] assms(2)] i assms(1)
  show "carousel_inv s" and "images s = imgs" by simp_all
  from timer_run[OF timer_init assms(2)] show "timer_inv s" .
qed

subsection \<open>Settling\<close>

lemma settle_done: "timeouts s = [] \<Longrightarrow> settle k s = Some s"
  by (simp add: settle.simps)

lemma settle_fire:
  "timeouts s = t # ts \<Longrightarrow>
   settle (Suc k) s = settle k (timeoutCallback (s\<lparr>clock := max (clock s) t, timeouts := ts\<rparr>))"
  by (subst settle.simps) simp

lemma settle_in_middle:
  assumes "in_middle s" "timeouts s = [t]"
  shows "settle (Suc k) s = Some (s\<lparr>clock := max (clock s) t, timeouts := [], isTransitioning := False\<rparr>)"
proof -
  let ?s = "s\<lparr>clock := max (clock s) t, timeouts := []\<rparr>"
  from assms(1) have "timeoutCallback ?s = ?s\<lparr>isTransitioning := False\<rparr>"
    by (intro timeoutCallback_mid) (simp_all add: in_middle_def)
  then show ?thesis using assms(2) by (simp add: settle_fire settle_done)
qed

lemma settle_inv:
  assumes "images s \<noteq> []" "carousel_inv s"
  shows "\<exists>s'. settle 2 s = Some s' \<and> carousel_inv s' \<and> timeouts s' = [] \<and>
              images s' = images s \<and>
              currentIndex s' =
                (if timeouts s = [] then currentIndex s
                 else currentIndex (timeoutCallback (s\<lparr>timeouts := []\<rparr>)))"
proof (cases "timeouts s")
  case Nil
  with assms show ?thesis by (simp add: settle_done)
next
  case (Cons t ts)
  with assms(2) have t: "timeouts s = [t]" by (simp add: carousel_inv_def)
  let ?c = "s\<lparr>clock := max (clock s) t\<rparr>"
  let ?s1 = "timeoutCallback (?c\<lparr>timeouts := []\<rparr>)"
  have c: "carousel_inv ?c" "images ?c \<noteq> []" "timeouts ?c = [t]"
    using assms t by (simp_all add: inv_clock)
  have i1: "carousel_inv ?s1" and m1: "in_middle ?s1"
    using inv_timeoutCallback[OF c(2) c(1) c(3)] by simp_all
  have idx: "currentIndex ?s1 = currentIndex (timeoutCallback (s\<lparr>timeouts := []\<rparr>))"
    by (simp add: timeoutCallback_def Let_def)
  have two: "settle 2 s = settle 1 ?s1"
    using settle_fire[OF t, of 1] by (simp add: numeral_2_eq_2)
  show ?thesis
  proof (cases "timeouts ?s1")
    case Nil
    with two i1 idx t show ?thesis by (simp add: settle_done)
  next
    case (Cons u us)
    with i1 have u: "timeouts ?s1 = [u]" by (simp add: carousel_inv_def)
    let ?s2 = "?s1\<lparr>clock := max (clock ?s1) u, timeouts := [], isTransitioning := False\<rparr>"
    from settle_in_middle[OF m1 u, of 0] two have "settle 2 s = Some ?s2" by simp
    moreover have "carousel_inv ?s2"
      using i1 m1 by (simp add: carousel_inv_def in_middle_def)
    moreover have "currentIndex ?s2 = currentIndex ?s1" by simp
    ultimately show ?thesis using idx t by simp
  qed
qed

lemma idle_inv:
  "in_middle s \<Longrightarrow> \<not> isTransitioning s \<Longrightarrow> timeouts s = [] \<Longrightarrow> carousel_inv s"
  by (simp add: carousel_inv_def in_middle_def)

lemma callback_index:
  "currentIndex (timeoutCallback s) =
     (if 2 * int (length (images s)) \<le> currentIndex s then currentIndex s - int (length (images s))
      else if currentIndex s < int (length (images s)) then int (length (images s)) + currentIndex s
      else currentIndex s)"
  by (simp add: timeoutCallback_def Let_def)

lemma settle_move:
  assumes "images s \<noteq> []" "in_middle s" "\<not> isTransitioning s" "timeouts s = []"
    and "m = nextSlide s \<or> m = prevSlide s"
  shows "\<exists>s'. settle 2 m = Some s' \<and> in_middle s' \<and> \<not> isTransitioning s' \<and>
              timeouts s' = [] \<and> images s' = images s \<and>
              currentIndex s' = currentIndex (timeoutCallback (m\<lparr>timeouts := []\<rparr>))"
proof -
  have inv: "carousel_inv m" "images m \<noteq> []" "images m = images s"
    using assms idle_inv[OF assms(2,3,4)] by (auto intro: inv_nextSlide inv_prevSlide)
  have q: "timeouts m \<noteq> []"
    using assms(3,4,5) nextSlide_idle[OF assms(3)] prevSlide_idle[OF assms(3)] by auto
  from settle_inv[OF inv(2) inv(1)] q obtain s' where s': "settle 2 m = Some s'"
    "carousel_inv s'" "timeouts s' = []" "images s' = images m"
    "currentIndex s' = currentIndex (timeoutCallback (m\<lparr>timeouts := []\<rparr>))"
    by auto
  from s'(2,3) have "\<not> isTransitioning s'" "in_middle s'"
    by (simp_all add: carousel_inv_def)
  with s' inv(3) show ?thesis by simp
qed

subsection \<open>Listeners and timer deadlines\<close>

lemma step_listeners:
  "step e s = Some s' \<Longrightarrow> nextClick s' = nextClick s \<and> prevClick s' = prevClick s"
  by (cases e) (auto simp: nextButtonClick_def prevButtonClick_def split: if_splits option.splits)

lemma run_listeners:
  "run es s = Some s' \<Longrightarrow> nextClick s' = nextClick s \<and> prevClick s' = prevClick s"
proof (induction es arbitrary: s)
  case Nil
  then show ?case by simp
next
  case (Cons e es)
  from Cons.prems obtain s1 where s1: "step e s = Some s1" and r: "run es s1 = Some s'"
    by (auto split: option.splits)
  from Cons.IH[OF r] step_listeners[OF s1] show ?case by simp
qed

lemma not_before_restart: "not_before T s \<Longrightarrow> not_before T (restartAutoSlide s)"
  using restartAutoSlide_timer[of s]
  by (auto simp: not_before_def split: option.splits)

lemma not_before_simps [simp]:
  "not_before T (nextSlide s) = not_before T s"
  "not_before T (prevSlide s) = not_before T s"
  "not_before T (timeoutCallback s) = not_before T s"
  "not_before T (s\<lparr>timeouts := ts\<rparr>) = not_before T s"
  by (simp_all add: not_before_def)

lemma interval_enabled:
  assumes "step (Interval h) s = Some s'"
  shows "\<exists>t \<in> set (intervals s). handle t = h \<and> due t \<le> clock s"
proof -
  from assms obtain t where f: "find (\<lambda>t. handle t = h) (intervals s) = Some t"
    and d: "due t \<le> clock s"
    by (auto split: option.splits if_splits)
  from f have "t \<in> set (intervals s)" "handle t = h"
    by (auto simp: find_Some_iff)
  with d show ?thesis by blast
qed

lemma not_before_step:
  assumes "not_before T s" "step e s = Some s'"
  shows "not_before T s'"
proof (cases e)
  case ClickNext
  then show ?thesis using assms
    by (auto simp: nextButtonClick_def intro!: not_before_restart)
next
  case ClickPrev
  then show ?thesis using assms
    by (auto simp: prevButtonClick_def intro!: not_before_restart)
next
  case (Timeout i)
  then show ?thesis using assms by (auto split: if_splits)
next
  case (Interval h)
  from interval_enabled[of h s s'] Interval assms(2) obtain t
    where "t \<in> set (intervals s)" "due t \<le> clock s" by auto
  with assms(1) have T: "T \<le> clock s" by (auto simp: not_before_def)
  have "not_before T (s\<lparr>intervals :=
          map (\<lambda>u. if handle u = h then u\<lparr>due := clock s + period u\<rparr> else u) (intervals s)\<rparr>)"
    using assms(1) T by (auto simp: not_before_def)
  with Interval assms(2) show ?thesis by (auto split: option.splits if_splits)
next
  case (Elapse d)
  then show ?thesis using assms by (auto simp: not_before_def)
qed

lemma not_before_run: "not_before T s \<Longrightarrow> run es s = Some s' \<Longrightarrow> not_before T s'"
proof (induction es arbitrary: s)
  case Nil
  then show ?case by simp
next
  case (Cons e es)
  from Cons.prems(2) obtain s1 where s1: "step e s = Some s1" and r: "run es s1 = Some s'"
    by (auto split: option.splits)
  from Cons.IH[OF not_before_step[OF Cons.prems(1) s1] r] show ?case .
qed

subsection \<open>Evaluating the functions field by field\<close>

lemma callback_flag:
  "isTransitioning (timeoutCallback s) =
     (2 * int (length (images s)) \<le> currentIndex s \<or> currentIndex s < int (length (images s)))"
  by (simp add: timeoutCallback_def Let_def)

lemma callback_timeouts:
  "timeouts (timeoutCallback s) =
     (if 2 * int (length (images s)) \<le> currentIndex s \<or> currentIndex s < int (length (images s))
      then timeouts s @ [clock s] else timeouts s)"
  by (simp add: timeoutCallback_def Let_def updateTrackPosition_run)

lemma callback_style:
  "styleTransition (timeoutCallback s) =
     (if 2 * int (length (images s)) \<le> currentIndex s \<or> currentIndex s < int (length (images s))
      then ''none'' else styleTransition s)"
  by (simp add: timeoutCallback_def Let_def updateTrackPosition_run)

lemma nextSlide_eval:
  "currentIndex (nextSlide s) = (if isTransitioning s then currentIndex s else currentIndex s + 1)"
  "isTransitioning (nextSlide s)"
  "timeouts (nextSlide s) =
     (if isTransitioning s then timeouts s else timeouts s @ [clock s + 1200])"
  "styleTransition (nextSlide s) =
     (if isTransitioning s then styleTransition s
      else ''transform 1.2s cubic-bezier(0.4, 0, 0.2, 1)'')"
  by (simp_all add: nextSlide_def updateTrackPosition_run)

lemma prevSlide_eval:
  "currentIndex (prevSlide s) = (if isTransitioning s then currentIndex s else currentIndex s - 1)"
  "isTransitioning (prevSlide s)"
  "timeouts (prevSlide s) =
     (if isTransitioning s then timeouts s else timeouts s @ [clock s + 1200])"
  "styleTransition (prevSlide s) =
     (if isTransitioning s then styleTransition s
      else ''transform 1.2s cubic-bezier(0.4, 0, 0.2, 1)'')"
  by (simp_all add: prevSlide_def updateTrackPosition_run)

lemma restartAutoSlide_eval:
  "autoSlideInterval (restartAutoSlide s) = Some (nextHandle s)"
  "nextHandle (restartAutoSlide s) = nextHandle s + 1"
  "intervals (restartAutoSlide s) =
     (case autoSlideInterval s of
        None \<Rightarrow> intervals s
      | Some i \<Rightarrow> filter (\<lambda>t. handle t \<noteq> i) (intervals s))
     @ [\<lparr>handle = nextHandle s, period = 5000, due = clock s + 5000\<rparr>]"
  using restartAutoSlide_timer[of s] by simp_all

lemmas eval_fields =
  callback_index callback_flag callback_timeouts callback_style
  nextSlide_eval prevSlide_eval restartAutoSlide_eval
  nextButtonClick_def prevButtonClick_def

lemma run_trans:
  "run es s = Some s1 \<Longrightarrow> run fs s1 = Some s2 \<Longrightarrow> run (es @ fs) s = Some s2"
  by (induction es arbitrary: s) (auto split: option.splits)

subsection \<open>The example pages\<close>

lemma length_galleryImages: "length galleryImages = 5"
  by (simp add: galleryImages_def)

lemma opened_eq: "initGallerySlideshowWith galleryImages (blank True True True) = opened"
  by (simp add: opened_def initGallerySlideshow_def)

lemma opened_fields:
  "images opened = galleryImages" "currentIndex opened = 5" "isTransitioning opened"
  "styleTransition opened = ''transform 1.2s cubic-bezier(0.4, 0, 0.2, 1)''"
  "timeouts opened = [1200]" "clock opened = 0"
  "intervals opened = [\<lparr>handle = 1, period = 5000, due = 5000\<rparr>]"
  "autoSlideInterval opened = Some 1" "nextHandle opened = 2"
  "nextClick opened" "prevClick opened"
proof -
  have p: "galleryTrack (blank True True True)" by (simp add: blank_def)
  show "images opened = galleryImages" "currentIndex opened = 5" "isTransitioning opened"
    "styleTransition opened = ''transform 1.2s cubic-bezier(0.4, 0, 0.2, 1)''"
    "timeouts opened = [1200]" "clock opened = 0"
    "intervals opened = [\<lparr>handle = 1, period = 5000, due = 5000\<rparr>]"
    "autoSlideInterval opened = Some 1" "nextHandle opened = 2"
    "nextClick opened" "prevClick opened"
    unfolding opened_def initGallerySlideshow_def
    by (simp_all add: init_state[OF p])
       (simp_all add: blank_def galleryImages_def)
qed

lemma rested_run: "run [Elapse 1200, Timeout 0] opened = Some rested"
  by (simp add: rested_def opened_fields)

lemma rested_fields:
  "images rested = galleryImages" "currentIndex rested = 5" "\<not> isTransitioning rested"
  "timeouts rested = []" "clock rested = 1200"
  "intervals rested = [\<lparr>handle = 1, period = 5000, due = 5000\<rparr>]"
  "autoSlideInterval rested = Some 1" "nextHandle rested = 2"
  "nextClick rested" "prevClick rested"
  by (simp_all add: rested_def opened_fields eval_fields length_galleryImages)

lemma stepped_back_run: "run [ClickPrev] rested = Some stepped_back"
  by (simp add: stepped_back_def)

lemma stepped_back_fields:
  "images stepped_back = galleryImages" "currentIndex stepped_back = 4"
  "isTransitioning stepped_back"
  "styleTransition stepped_back = ''transform 1.2s cubic-bezier(0.4, 0, 0.2, 1)''"
  "timeouts stepped_back = [2400]" "clock stepped_back = 1200"
  "intervals stepped_back = [\<lparr>handle = 2, period = 5000, due = 6200\<rparr>]"
  by (simp_all add: stepped_back_def rested_fields eval_fields length_galleryImages)

lemma last_item_fields:
  "images last_item = galleryImages" "currentIndex last_item = 9"
  "\<not> isTransitioning last_item"
  "timeouts last_item = []" "clock last_item = 2400"
  by (simp_all add: last_item_def stepped_back_fields eval_fields length_galleryImages)

lemma past_end_fields:
  "images past_end = galleryImages" "currentIndex past_end = 10"
  by (simp_all add: past_end_def last_item_fields eval_fields)

lemma tick_due_run: "run [Elapse 3800] rested = Some tick_due"
  by (simp add: tick_due_def)

lemma tick_due_fields:
  "currentIndex tick_due = 5" "\<not> isTransitioning tick_due" "clock tick_due = 5000"
  "intervals tick_due = [\<lparr>handle = 1, period = 5000, due = 5000\<rparr>]"
  by (simp_all add: tick_due_def rested_fields)

lemma before_click_run: "run [Elapse 3700] rested = Some before_click"
  by (simp add: before_click_def)

lemma before_click_fields:
  "currentIndex before_click = 5" "\<not> isTransitioning before_click" "clock before_click = 4900"
  "intervals before_click = [\<lparr>handle = 1, period = 5000, due = 5000\<rparr>]"
  "autoSlideInterval before_click = Some 1" "nextHandle before_click = 2"
  "nextClick before_click"
  by (simp_all add: before_click_def rested_fields)

lemma after_click_fields:
  "currentIndex after_click = 6" "clock after_click = 4900"
  "intervals after_click = [\<lparr>handle = 2, period = 5000, due = 9900\<rparr>]"
  by (simp_all add: after_click_def before_click_fields eval_fields)

lemma period_later_fields:
  "clock period_later = 9900"
  "intervals period_later = [\<lparr>handle = 2, period = 5000, due = 9900\<rparr>]"
  by (simp_all add: period_later_def after_click_fields)

subsection \<open>The first transition\<close>

text \<open>
  On a fresh page the positioning of initialization holds the flag until its callback,
  which is due at 1200 ms: before then the index is \<open>N\<close> and every advance is dropped.
\<close>

lemma first_transition_step:
  assumes "clock s < 1200 \<longrightarrow>
             isTransitioning s \<and> currentIndex s = n \<and> timeouts s = [1200]"
    and "step e s = Some s'"
  shows "clock s' < 1200 \<longrightarrow>
           isTransitioning s' \<and> currentIndex s' = n \<and> timeouts s' = [1200]"
proof (cases e)
  case ClickNext
  then show ?thesis using assms
    by (auto simp: nextButtonClick_def nextSlide_def split: if_splits)
next
  case ClickPrev
  then show ?thesis using assms
    by (auto simp: prevButtonClick_def prevSlide_def split: if_splits)
next
  case (Timeout i)
  then show ?thesis using assms by (auto split: if_splits)
next
  case (Interval h)
  then show ?thesis using assms
    by (auto simp: nextSlide_def split: option.splits if_splits)
next
  case (Elapse d)
  then show ?thesis using assms by auto
qed

lemma first_transition_run:
  assumes "clock s < 1200 \<longrightarrow>
             isTransitioning s \<and> currentIndex s = n \<and> timeouts s = [1200]"
    and "run es s = Some s'"
  shows "clock s' < 1200 \<longrightarrow>
           isTransitioning s' \<and> currentIndex s' = n \<and> timeouts s' = [1200]"
  using assms
proof (induction es arbitrary: s)
  case Nil
  then show ?case by simp
next
  case (Cons e es)
  from Cons.prems(2) obtain s1 where s1: "step e s = Some s1" and r: "run es s1 = Some s'"
    by (auto split: option.splits)
  from Cons.IH[OF first_transition_step[OF Cons.prems(1) s1] r] show ?case .
qed

lemma advances_dropped_before_first_callback:
  assumes "run es (initGallerySlideshowWith imgs (blank True pb nb)) = Some s"
    and "clock s < 1200"
  shows "isTransitioning s \<and> currentIndex s = int (length imgs) \<and>
         nextSlide s = s \<and> prevSlide s = s"
proof -
  have p: "galleryTrack (blank True pb nb)" by (simp add: blank_def)
  have "clock (initGallerySlideshowWith imgs (blank True pb nb)) < 1200 \<longrightarrow>
          isTransitioning (initGallerySlideshowWith imgs (blank True pb nb)) \<and>
          currentIndex (initGallerySlideshowWith imgs (blank True pb nb)) = int (length imgs) \<and>
          timeouts (initGallerySlideshowWith imgs (blank True pb nb)) = [1200]"
    by (simp add: init_state[OF p]) (simp add: blank_def)
  from first_transition_run[OF this assms(1)] assms(2)
  show ?thesis by (simp add: nextSlide_def prevSlide_def)
qed

subsection \<open>The claims\<close>

text \<open>
  C1. For every list of \<open>N \<ge> 1\<close> images and every state the carousel can reach from
  initialization by clicks, timers and the passing of time: whenever the state is
  settled (the flag is clear, or the last positioning was the instant correction of the
  completion callback) the index lies in \<open>[N, 2N)\<close>; in every state it lies in
  \<open>[N - 1, 2N]\<close>; and letting the pending callbacks run always ends, after at most two
  of them, in a state with the flag clear and the index in \<open>[N, 2N)\<close>.
\<close>

theorem index_in_middle_copy_after_settle:
  assumes "imgs \<noteq> []"
    and "run es (initGallerySlideshowWith imgs (blank True pb nb)) = Some s"
  shows "(\<not> isTransitioning s \<or> styleTransition s = ''none'' \<longrightarrow>
            int (length imgs) \<le> currentIndex s \<and> currentIndex s < 2 * int (length imgs)) \<and>
         int (length imgs) - 1 \<le> currentIndex s \<and> currentIndex s \<le> 2 * int (length imgs) \<and>
         (\<exists>s'. settle 2 s = Some s' \<and> \<not> isTransitioning s' \<and> timeouts s' = [] \<and>
               int (length imgs) \<le> currentIndex s' \<and> currentIndex s' < 2 * int (length imgs))"
proof -
  note r = inv_reachable[OF assms]
  from r(2) assms(1) have ne: "images s \<noteq> []" by simp
  from settle_inv[OF ne r(1)] obtain s' where s': "settle 2 s = Some s'" "carousel_inv s'"
    "timeouts s' = []" "images s' = images s"
    by auto
  from s'(2,3) have "\<not> isTransitioning s'" "in_middle s'" by (simp_all add: carousel_inv_def)
  with s' r show ?thesis by (auto simp: carousel_inv_def in_middle_def)
qed

theorem index_in_middle_copy_after_settle_witness:
  "galleryImages \<noteq> [] \<and>
   run [Elapse 1200, Timeout 0, ClickPrev]
     (initGallerySlideshowWith galleryImages (blank True True True)) = Some stepped_back \<and>
   currentIndex stepped_back = 4 \<and> isTransitioning stepped_back \<and>
   styleTransition stepped_back \<noteq> ''none'' \<and>
   int (length galleryImages) - 1 \<le> currentIndex stepped_back \<and>
   currentIndex stepped_back \<le> 2 * int (length galleryImages) \<and>
   (\<exists>s'. settle 2 stepped_back = Some s' \<and> \<not> isTransitioning s' \<and> timeouts s' = [] \<and>
         int (length galleryImages) \<le> currentIndex s' \<and>
         currentIndex s' < 2 * int (length galleryImages))"
proof -
  have a: "galleryImages \<noteq> []" by (simp add: galleryImages_def)
  have "run ([Elapse 1200, Timeout 0] @ [ClickPrev]) opened = Some stepped_back"
    by (rule run_trans[OF rested_run stepped_back_run])
  then have b: "run [Elapse 1200, Timeout 0, ClickPrev]
             (initGallerySlideshowWith galleryImages (blank True True True)) = Some stepped_back"
    by (simp only: append_Cons append_Nil opened_eq)
  have c: "currentIndex stepped_back = 4 \<and> isTransitioning stepped_back \<and>
           styleTransition stepped_back \<noteq> ''none''"
    by (simp add: stepped_back_fields)
  from index_in_middle_copy_after_settle[OF a b] a b c show ?thesis by blast
qed

text \<open>Both transient values are reached: \<open>N - 1\<close> above, \<open>2N\<close> one step after the last item.\<close>

lemma index_2N_reached: "currentIndex past_end = 2 * int (length (images past_end))"
  by (simp add: past_end_fields length_galleryImages)

text \<open>
  C3. In every state whose flag is set, \<^verbatim>\<open>nextSlide\<close> and \<^verbatim>\<open>prevSlide\<close> return the
  page as it is: the index, the style of the transition in flight, the queue of
  timeouts and everything else are unchanged.
\<close>

theorem advance_dropped_while_transitioning:
  "isTransitioning s \<Longrightarrow> nextSlide s = s \<and> prevSlide s = s"
  by (simp add: nextSlide_def prevSlide_def)

theorem advance_dropped_while_transitioning_witness:
  "isTransitioning opened \<and> nextSlide opened = opened \<and> prevSlide opened = opened"
proof -
  have a: "isTransitioning opened" by (simp add: opened_fields)
  from advance_dropped_while_transitioning[OF a] a show ?thesis by blast
qed

text \<open>
  C7. On an index already in \<open>[N, 2N)\<close> the completion callback corrects nothing: the
  index is unchanged, the callback only clears the flag, and running it again changes
  nothing more.
\<close>

theorem wrap_correction_idempotent:
  assumes "int (length (images s)) \<le> currentIndex s"
    and "currentIndex s < 2 * int (length (images s))"
  shows "currentIndex (timeoutCallback s) = currentIndex s \<and>
         timeoutCallback s = s\<lparr>isTransitioning := False\<rparr> \<and>
         timeoutCallback (timeoutCallback s) = timeoutCallback s"
proof -
  have 1: "timeoutCallback s = s\<lparr>isTransitioning := False\<rparr>"
    by (rule timeoutCallback_mid[OF assms])
  have "timeoutCallback (s\<lparr>isTransitioning := False\<rparr>) = s\<lparr>isTransitioning := False\<rparr>"
    using assms by (simp add: timeoutCallback_def Let_def)
  with 1 show ?thesis by simp
qed

theorem wrap_correction_idempotent_witness:
  "int (length (images opened)) \<le> currentIndex opened \<and>
   currentIndex opened < 2 * int (length (images opened)) \<and>
   currentIndex (timeoutCallback opened) = currentIndex opened \<and>
   timeoutCallback opened = opened\<lparr>isTransitioning := False\<rparr> \<and>
   timeoutCallback (timeoutCallback opened) = timeoutCallback opened"
proof -
  have a: "int (length (images opened)) \<le> currentIndex opened"
    by (simp add: opened_fields length_galleryImages)
  have b: "currentIndex opened < 2 * int (length (images opened))"
    by (simp add: opened_fields length_galleryImages)
  from wrap_correction_idempotent[OF a b] a b show ?thesis by blast
qed

text \<open>
  C10. When the page has no gallery track, \<^verbatim>\<open>initGallerySlideshow\<close> returns the page
  unchanged: no image is rendered, no timer or timeout is registered, no listener is
  bound. The early return is the first statement after the three look-ups, none of
  which can throw.
\<close>

theorem init_without_track_is_noop:
  "\<not> galleryTrack p \<Longrightarrow> initGallerySlideshow p = p \<and> initGallerySlideshowWith imgs p = p"
  by (simp add: initGallerySlideshow_def initGallerySlideshowWith_def)

theorem init_without_track_is_noop_witness:
  "\<not> galleryTrack (blank False True True) \<and>
   initGallerySlideshow (blank False True True) = blank False True True \<and>
   initGallerySlideshowWith [''a.png''] (blank False True True) = blank False True True"
proof -
  have a: "\<not> galleryTrack (blank False True True)" by (simp add: blank_def)
  from init_without_track_is_noop[OF a] a show ?thesis by blast
qed

text \<open>
  C2. The completion callback: if the index is at least \<open>2N\<close> it subtracts \<open>N\<close> and
  re-renders instantly (transition \<^verbatim>\<open>none\<close>, offset of the corrected index, a
  zero-delay timeout); otherwise, if the index is below \<open>N\<close>, it adds \<open>N\<close> and
  re-renders instantly; otherwise it corrects nothing and renders nothing. With five
  images, from index 5 at rest, one step backward followed by a settle ends at index 9.
\<close>

theorem wrap_check_of_completion_callback:
  "(2 * int (length (images s)) \<le> currentIndex s \<longrightarrow>
      currentIndex (timeoutCallback s) = currentIndex s - int (length (images s)) \<and>
      styleTransition (timeoutCallback s) = ''none'' \<and>
      styleTransform (timeoutCallback s) =
        Some (- ((currentIndex s - int (length (images s))) * 100)) \<and>
      timeouts (timeoutCallback s) = timeouts s @ [clock s + 0]) \<and>
   (\<not> 2 * int (length (images s)) \<le> currentIndex s \<and> currentIndex s < int (length (images s)) \<longrightarrow>
      currentIndex (timeoutCallback s) = int (length (images s)) + currentIndex s \<and>
      styleTransition (timeoutCallback s) = ''none'' \<and>
      styleTransform (timeoutCallback s) =
        Some (- ((int (length (images s)) + currentIndex s) * 100)) \<and>
      timeouts (timeoutCallback s) = timeouts s @ [clock s + 0]) \<and>
   (int (length (images s)) \<le> currentIndex s \<and> currentIndex s < 2 * int (length (images s)) \<longrightarrow>
      currentIndex (timeoutCallback s) = currentIndex s \<and>
      styleTransition (timeoutCallback s) = styleTransition s \<and>
      styleTransform (timeoutCallback s) = styleTransform s \<and>
      timeouts (timeoutCallback s) = timeouts s) \<and>
   (length (images r) = 5 \<and> currentIndex r = 5 \<and> \<not> isTransitioning r \<and> timeouts r = [] \<longrightarrow>
      map_option currentIndex (settle 2 (prevSlide r)) = Some 9)"
proof -
  have "map_option currentIndex (settle 2 (prevSlide r)) = Some 9"
    if r: "length (images r) = 5" "currentIndex r = 5" "\<not> isTransitioning r" "timeouts r = []"
  proof -
    have ne: "images r \<noteq> []" using r(1) by auto
    have m: "in_middle r" using r(1,2) by (simp add: in_middle_def)
    from settle_move[OF ne m r(3,4), of "prevSlide r"] obtain s'
      where s': "settle 2 (prevSlide r) = Some s'"
        "currentIndex s' = currentIndex (timeoutCallback ((prevSlide r)\<lparr>timeouts := []\<rparr>))"
      by auto
    from prevSlide_idle[OF r(3)] r(1,2)
    have "currentIndex (timeoutCallback ((prevSlide r)\<lparr>timeouts := []\<rparr>)) = 9"
      by (simp add: callback_index)
    with s' show ?thesis by simp
  qed
  then show ?thesis
    using timeoutCallback_high[of s] timeoutCallback_low[of s] timeoutCallback_mid[of s]
    by simp
qed

theorem wrap_check_of_completion_callback_witness:
  "2 * int (length (images past_end)) \<le> currentIndex past_end \<and>
   currentIndex past_end = 10 \<and>
   currentIndex (timeoutCallback past_end) = currentIndex past_end - int (length (images past_end)) \<and>
   styleTransition (timeoutCallback past_end) = ''none'' \<and>
   \<not> 2 * int (length (images stepped_back)) \<le> currentIndex stepped_back \<and>
   currentIndex stepped_back < int (length (images stepped_back)) \<and>
   currentIndex (timeoutCallback stepped_back) =
     int (length (images stepped_back)) + currentIndex stepped_back \<and>
   styleTransition (timeoutCallback stepped_back) = ''none'' \<and>
   int (length (images rested)) \<le> currentIndex rested \<and>
   currentIndex rested < 2 * int (length (images rested)) \<and>
   timeouts (timeoutCallback rested) = timeouts rested \<and>
   length (images rested) = 5 \<and> currentIndex rested = 5 \<and> \<not> isTransitioning rested \<and>
   timeouts rested = [] \<and>
   map_option currentIndex (settle 2 (prevSlide rested)) = Some 9"
proof -
  have a: "2 * int (length (images past_end)) \<le> currentIndex past_end \<and>
           currentIndex past_end = 10"
    by (simp add: past_end_fields length_galleryImages)
  have b: "\<not> 2 * int (length (images stepped_back)) \<le> currentIndex stepped_back \<and>
           currentIndex stepped_back < int (length (images stepped_back))"
    by (simp add: stepped_back_fields length_galleryImages)
  have c: "int (length (images rested)) \<le> currentIndex rested \<and>
           currentIndex rested < 2 * int (length (images rested))"
    by (simp add: rested_fields length_galleryImages)
  have d: "length (images rested) = 5 \<and> currentIndex rested = 5 \<and> \<not> isTransitioning rested \<and>
           timeouts rested = []"
    by (simp add: rested_fields length_galleryImages)
  from wrap_check_of_completion_callback[of past_end rested]
    wrap_check_of_completion_callback[of stepped_back rested]
    wrap_check_of_completion_callback[of rested rested] a b c d
  show ?thesis by blast
qed

text \<open>
  C4, as the code has it. For every list of \<open>N \<ge> 1\<close> images and every page with a
  gallery track, initialization renders the three copies, sets the index to \<open>N\<close> and
  positions the track once at the offset of item \<open>N\<close> of the rendered sequence, which
  is item 0 of the image list. The positioning is the default, animated one: the
  transition is the 1.2 s transform, the flag is set, and the completion callback is
  queued 1200 ms later.
\<close>

theorem init_positions_on_first_item:
  assumes "imgs \<noteq> []" and "galleryTrack p"
  shows "currentIndex (initGallerySlideshowWith imgs p) = int (length imgs) \<and>
         styleTransform (initGallerySlideshowWith imgs p) = Some (- (int (length imgs) * 100)) \<and>
         map src (innerHTML (initGallerySlideshowWith imgs p)) = imgs @ imgs @ imgs \<and>
         (imgs @ imgs @ imgs) ! length imgs = imgs ! 0 \<and>
         styleTransition (initGallerySlideshowWith imgs p) =
           ''transform 1.2s cubic-bezier(0.4, 0, 0.2, 1)'' \<and>
         isTransitioning (initGallerySlideshowWith imgs p) \<and>
         timeouts (initGallerySlideshowWith imgs p) = timeouts p @ [clock p + 1200]"
proof -
  have "(imgs @ imgs @ imgs) ! length imgs = imgs ! 0"
    using assms(1) by (simp add: nth_append)
  with init_state[OF assms(2), of imgs] show ?thesis by simp
qed

theorem init_positions_on_first_item_witness:
  "galleryImages \<noteq> [] \<and> galleryTrack (blank True True True) \<and>
   currentIndex (initGallerySlideshowWith galleryImages (blank True True True)) =
     int (length galleryImages) \<and>
   styleTransform (initGallerySlideshowWith galleryImages (blank True True True)) =
     Some (- (int (length galleryImages) * 100)) \<and>
   (galleryImages @ galleryImages @ galleryImages) ! length galleryImages = galleryImages ! 0 \<and>
   isTransitioning (initGallerySlideshowWith galleryImages (blank True True True))"
proof -
  have a: "galleryImages \<noteq> []" by (simp add: galleryImages_def)
  have b: "galleryTrack (blank True True True)" by (simp add: blank_def)
  from init_positions_on_first_item[OF a b] a b show ?thesis by blast
qed

text \<open>
  The positioning at initialization is not the instant one: on the page of the source
  (five images, both buttons) the transition is the animated one, the flag is set and
  the callback is due at 1200 ms; a click on the next button at that moment moves
  nothing.
\<close>

theorem init_positioning_is_animated:
  "styleTransition (initGallerySlideshow (blank True True True)) \<noteq> ''none'' \<and>
   isTransitioning (initGallerySlideshow (blank True True True)) \<and>
   timeouts (initGallerySlideshow (blank True True True)) = [1200] \<and>
   currentIndex (nextButtonClick (initGallerySlideshow (blank True True True))) = 5"
  unfolding opened_def[symmetric] by (simp add: opened_fields eval_fields)

text \<open>
  C5. After a single step from a resting index in \<open>[N, 2N)\<close>, the completion callback
  leaves the index in \<open>[N, 2N)\<close>. Either it corrected nothing and the flag is clear, or
  it corrected once: the flag is then set again, but only until the zero-delay
  callback of the instant re-render, which is due at once. That second callback takes
  no correction branch: it clears the flag and changes nothing else, so nothing further
  is queued.
\<close>

theorem correction_is_single:
  assumes "images s \<noteq> []"
    and "int (length (images s)) \<le> currentIndex s"
    and "currentIndex s < 2 * int (length (images s))"
    and "\<not> isTransitioning s" and "timeouts s = []"
    and "m = nextSlide s \<or> m = prevSlide s"
  shows "let c = timeoutCallback (m\<lparr>timeouts := []\<rparr>) in
           int (length (images s)) \<le> currentIndex c \<and>
           currentIndex c < 2 * int (length (images s)) \<and>
           (timeouts c = [] \<and> \<not> isTransitioning c \<or>
            timeouts c = [clock c] \<and> isTransitioning c \<and> styleTransition c = ''none'') \<and>
           timeoutCallback (c\<lparr>timeouts := []\<rparr>) = c\<lparr>timeouts := [], isTransitioning := False\<rparr>"
proof -
  define c where "c = timeoutCallback (m\<lparr>timeouts := []\<rparr>)"
  have mid: "in_middle s" using assms(2,3) by (simp add: in_middle_def)
  have inv: "carousel_inv m" and im: "images m = images s"
    using assms(6) idle_inv[OF mid assms(4,5)] by (auto intro: inv_nextSlide inv_prevSlide)
  have q: "timeouts m = [clock s + 1200]"
    using assms(5,6) nextSlide_idle[OF assms(4)] prevSlide_idle[OF assms(4)] by auto
  have ne: "images m \<noteq> []" using im assms(1) by simp
  have cm: "in_middle c" and ci: "carousel_inv c"
    using inv_timeoutCallback[OF ne inv q] by (simp_all add: c_def)
  have ic: "images c = images s" by (simp add: c_def im)
  have shape: "timeouts c = [] \<and> \<not> isTransitioning c \<or>
               timeouts c = [clock c] \<and> isTransitioning c \<and> styleTransition c = ''none''"
  proof -
    let ?m = "m\<lparr>timeouts := []\<rparr>"
    consider "2 * int (length (images ?m)) \<le> currentIndex ?m"
      | "\<not> 2 * int (length (images ?m)) \<le> currentIndex ?m" "currentIndex ?m < int (length (images ?m))"
      | "int (length (images ?m)) \<le> currentIndex ?m" "currentIndex ?m < 2 * int (length (images ?m))"
      by linarith
    then show ?thesis
    proof cases
      case 1
      from timeoutCallback_high[OF 1] show ?thesis by (simp add: c_def)
    next
      case 2
      from timeoutCallback_low[OF 2(2) 2(1)] show ?thesis by (simp add: c_def)
    next
      case 3
      from timeoutCallback_mid[OF 3] have "c = ?m\<lparr>isTransitioning := False\<rparr>"
        by (simp add: c_def)
      then show ?thesis by simp
    qed
  qed
  have "timeoutCallback (c\<lparr>timeouts := []\<rparr>) = c\<lparr>timeouts := [], isTransitioning := False\<rparr>"
    using cm by (intro timeoutCallback_mid) (simp_all add: in_middle_def)
  with cm ic shape show ?thesis
    unfolding c_def[symmetric] Let_def by (simp add: in_middle_def)
qed

theorem correction_is_single_witness:
  "images rested \<noteq> [] \<and>
   int (length (images rested)) \<le> currentIndex rested \<and>
   currentIndex rested < 2 * int (length (images rested)) \<and>
   \<not> isTransitioning rested \<and> timeouts rested = [] \<and>
   (prevSlide rested = nextSlide rested \<or> prevSlide rested = prevSlide rested) \<and>
   currentIndex (prevSlide rested) = 4 \<and>
   (let c = timeoutCallback ((prevSlide rested)\<lparr>timeouts := []\<rparr>) in
      int (length (images rested)) \<le> currentIndex c \<and>
      currentIndex c < 2 * int (length (images rested)) \<and>
      (timeouts c = [] \<and> \<not> isTransitioning c \<or>
       timeouts c = [clock c] \<and> isTransitioning c \<and> styleTransition c = ''none'') \<and>
      timeoutCallback (c\<lparr>timeouts := []\<rparr>) = c\<lparr>timeouts := [], isTransitioning := False\<rparr>)"
proof -
  have a: "images rested \<noteq> []" by (simp add: rested_fields galleryImages_def)
  have b: "int (length (images rested)) \<le> currentIndex rested"
    by (simp add: rested_fields length_galleryImages)
  have c: "currentIndex rested < 2 * int (length (images rested))"
    by (simp add: rested_fields length_galleryImages)
  have d: "\<not> isTransitioning rested" by (simp add: rested_fields)
  have e: "timeouts rested = []" by (simp add: rested_fields)
  have f: "prevSlide rested = nextSlide rested \<or> prevSlide rested = prevSlide rested" by simp
  have g: "currentIndex (prevSlide rested) = 4" by (simp add: rested_fields eval_fields)
  from correction_is_single[OF a b c d e f] a b c d e f g show ?thesis by blast
qed

text \<open>
  C6. From a resting state with the index in \<open>[N, 2N)\<close>, a step forward, a settle, a
  step backward and a settle end at the original index; so do a step backward, a
  settle, a step forward and a settle. Each settle ends within two callbacks.
\<close>

theorem forward_backward_round_trip:
  assumes "images s \<noteq> []"
    and "int (length (images s)) \<le> currentIndex s"
    and "currentIndex s < 2 * int (length (images s))"
    and "\<not> isTransitioning s" and "timeouts s = []"
  shows "map_option currentIndex
           (Option.bind (settle 2 (nextSlide s)) (\<lambda>s1. settle 2 (prevSlide s1))) =
           Some (currentIndex s) \<and>
         map_option currentIndex
           (Option.bind (settle 2 (prevSlide s)) (\<lambda>s1. settle 2 (nextSlide s1))) =
           Some (currentIndex s)"
proof -
  define n where "n = int (length (images s))"
  have n: "1 \<le> n" using assms(1) by (cases "images s") (simp_all add: n_def)
  have mid: "in_middle s" using assms(2,3) by (simp add: in_middle_def)
  have lo: "n \<le> currentIndex s" and hi: "currentIndex s < 2 * n"
    using assms(2,3) by (simp_all add: n_def)
  have fwd: "map_option currentIndex
           (Option.bind (settle 2 (nextSlide s)) (\<lambda>s1. settle 2 (prevSlide s1))) =
           Some (currentIndex s)"
  proof -
    from settle_move[OF assms(1) mid assms(4,5), of "nextSlide s"] obtain s1
      where s1: "settle 2 (nextSlide s) = Some s1" "in_middle s1" "\<not> isTransitioning s1"
        "timeouts s1 = []" "images s1 = images s"
        "currentIndex s1 = currentIndex (timeoutCallback ((nextSlide s)\<lparr>timeouts := []\<rparr>))"
      by auto
    have i1: "currentIndex s1 = (if 2 * n \<le> currentIndex s + 1 then currentIndex s + 1 - n
                                 else currentIndex s + 1)"
      using s1(6) nextSlide_idle[OF assms(4)] lo by (simp add: callback_index n_def)
    have ne1: "images s1 \<noteq> []" using s1(5) assms(1) by simp
    from settle_move[OF ne1 s1(2,3,4), of "prevSlide s1"] obtain s2
      where s2: "settle 2 (prevSlide s1) = Some s2"
        "currentIndex s2 = currentIndex (timeoutCallback ((prevSlide s1)\<lparr>timeouts := []\<rparr>))"
      by auto
    have "currentIndex s2 = (if 2 * n \<le> currentIndex s1 - 1 then currentIndex s1 - 1 - n
                             else if currentIndex s1 - 1 < n then n + (currentIndex s1 - 1)
                             else currentIndex s1 - 1)"
      using s2(2) prevSlide_idle[OF s1(3)] s1(5) by (simp add: callback_index n_def)
    with i1 lo hi n have "currentIndex s2 = currentIndex s" by (simp split: if_splits)
    with s1(1) s2(1) show ?thesis by simp
  qed
  have bwd: "map_option currentIndex
           (Option.bind (settle 2 (prevSlide s)) (\<lambda>s1. settle 2 (nextSlide s1))) =
           Some (currentIndex s)"
  proof -
    from settle_move[OF assms(1) mid assms(4,5), of "prevSlide s"] obtain s1
      where s1: "settle 2 (prevSlide s) = Some s1" "in_middle s1" "\<not> isTransitioning s1"
        "timeouts s1 = []" "images s1 = images s"
        "currentIndex s1 = currentIndex (timeoutCallback ((prevSlide s)\<lparr>timeouts := []\<rparr>))"
      by auto
    have i1: "currentIndex s1 = (if currentIndex s - 1 < n then n + (currentIndex s - 1)
                                 else currentIndex s - 1)"
      using s1(6) prevSlide_idle[OF assms(4)] hi by (simp add: callback_index n_def)
    have ne1: "images s1 \<noteq> []" using s1(5) assms(1) by simp
    from settle_move[OF ne1 s1(2,3,4), of "nextSlide s1"] obtain s2
      where s2: "settle 2 (nextSlide s1) = Some s2"
        "currentIndex s2 = currentIndex (timeoutCallback ((nextSlide s1)\<lparr>timeouts := []\<rparr>))"
      by auto
    have "currentIndex s2 = (if 2 * n \<le> currentIndex s1 + 1 then currentIndex s1 + 1 - n
                             else if currentIndex s1 + 1 < n then n + (currentIndex s1 + 1)
                             else currentIndex s1 + 1)"
      using s2(2) nextSlide_idle[OF s1(3)] s1(5) by (simp add: callback_index n_def)
    with i1 lo hi n have "currentIndex s2 = currentIndex s" by (simp split: if_splits)
    with s1(1) s2(1) show ?thesis by simp
  qed
  from fwd bwd show ?thesis by simp
qed

theorem forward_backward_round_trip_witness:
  "images last_item \<noteq> [] \<and>
   int (length (images last_item)) \<le> currentIndex last_item \<and>
   currentIndex last_item < 2 * int (length (images last_item)) \<and>
   \<not> isTransitioning last_item \<and> timeouts last_item = [] \<and>
   currentIndex last_item = 9 \<and>
   map_option currentIndex (settle 2 (nextSlide last_item)) = Some 5 \<and>
   map_option currentIndex
     (Option.bind (settle 2 (nextSlide last_item)) (\<lambda>s1. settle 2 (prevSlide s1))) =
     Some (currentIndex last_item) \<and>
   map_option currentIndex
     (Option.bind (settle 2 (prevSlide last_item)) (\<lambda>s1. settle 2 (nextSlide s1))) =
     Some (currentIndex last_item)"
proof -
  have a: "images last_item \<noteq> []" by (simp add: last_item_fields galleryImages_def)
  have b: "int (length (images last_item)) \<le> currentIndex last_item"
    by (simp add: last_item_fields length_galleryImages)
  have c: "currentIndex last_item < 2 * int (length (images last_item))"
    by (simp add: last_item_fields length_galleryImages)
  have d: "\<not> isTransitioning last_item" by (simp add: last_item_fields)
  have e: "timeouts last_item = []" by (simp add: last_item_fields)
  have f: "currentIndex last_item = 9" by (simp add: last_item_fields)
  have g: "map_option currentIndex (settle 2 (nextSlide last_item)) = Some 5"
    by (simp add: settle.simps numeral_2_eq_2 last_item_fields eval_fields length_galleryImages)
  from forward_backward_round_trip[OF a b c d e] a b c d e f g show ?thesis by blast
qed

text \<open>
  C8. In every state reached from initialization exactly one interval timer is live,
  the one whose handle the closure holds, and its period is 5000 ms.
  \<^verbatim>\<open>restartAutoSlide\<close> leaves exactly one timer, of period 5000 ms, first due 5000 ms
  from now. When the timer fires it runs \<^verbatim>\<open>nextSlide\<close> and is due again 5000 ms later.
\<close>

theorem auto_advance_period_is_5000:
  assumes "run es (initGallerySlideshowWith imgs (blank True pb nb)) = Some s"
  shows "(\<exists>h d. autoSlideInterval s = Some h \<and>
                intervals s = [\<lparr>handle = h, period = 5000, due = d\<rparr>]) \<and>
         intervals (restartAutoSlide s) =
           [\<lparr>handle = nextHandle s, period = 5000, due = clock s + 5000\<rparr>] \<and>
         (\<forall>h s'. step (Interval h) s = Some s' \<longrightarrow>
            autoSlideInterval s = Some h \<and>
            s' = nextSlide (s\<lparr>intervals := [\<lparr>handle = h, period = 5000, due = clock s + 5000\<rparr>]\<rparr>))"
proof -
  from timer_run[OF timer_init assms] have ti: "timer_inv s" .
  then obtain k d where k: "autoSlideInterval s = Some k"
    and i: "intervals s = [\<lparr>handle = k, period = 5000, due = d\<rparr>]"
    by (auto simp: timer_inv_def)
  have "autoSlideInterval s = Some h \<and>
        s' = nextSlide (s\<lparr>intervals := [\<lparr>handle = h, period = 5000, due = clock s + 5000\<rparr>]\<rparr>)"
    if "step (Interval h) s = Some s'" for h s'
    using that k i by (auto split: if_splits)
  with k i restartAutoSlide_single[OF ti] show ?thesis by blast
qed

theorem auto_advance_period_is_5000_witness:
  "run [Elapse 1200, Timeout 0, Elapse 3800]
     (initGallerySlideshowWith galleryImages (blank True True True)) = Some tick_due \<and>
   clock tick_due = 5000 \<and>
   intervals tick_due = [\<lparr>handle = 1, period = 5000, due = 5000\<rparr>] \<and>
   step (Interval 1) tick_due = Some (the (step (Interval 1) tick_due)) \<and>
   currentIndex (the (step (Interval 1) tick_due)) = 6 \<and>
   intervals (the (step (Interval 1) tick_due)) = [\<lparr>handle = 1, period = 5000, due = 10000\<rparr>] \<and>
   the (step (Interval 1) tick_due) =
     nextSlide (tick_due\<lparr>intervals := [\<lparr>handle = 1, period = 5000, due = clock tick_due + 5000\<rparr>]\<rparr>) \<and>
   intervals (restartAutoSlide tick_due) =
     [\<lparr>handle = nextHandle tick_due, period = 5000, due = clock tick_due + 5000\<rparr>]"
proof -
  have "run ([Elapse 1200, Timeout 0] @ [Elapse 3800]) opened = Some tick_due"
    by (rule run_trans[OF rested_run tick_due_run])
  then have a: "run [Elapse 1200, Timeout 0, Elapse 3800]
     (initGallerySlideshowWith galleryImages (blank True True True)) = Some tick_due"
    by (simp only: append_Cons append_Nil opened_eq)
  have b: "clock tick_due = 5000 \<and>
           intervals tick_due = [\<lparr>handle = 1, period = 5000, due = 5000\<rparr>]"
    by (simp add: tick_due_fields)
  have c: "step (Interval 1) tick_due = Some (the (step (Interval 1) tick_due))"
    by (simp add: tick_due_fields)
  have d: "currentIndex (the (step (Interval 1) tick_due)) = 6 \<and>
     intervals (the (step (Interval 1) tick_due)) = [\<lparr>handle = 1, period = 5000, due = 10000\<rparr>]"
    by (simp add: tick_due_fields eval_fields)
  from auto_advance_period_is_5000[OF a] a b c d show ?thesis by blast
qed

text \<open>
  C9. In every state reached from initialization, a click on a button that exists
  leaves exactly one interval timer, registered by that click and due 5000 ms after
  it; the timer that was pending is gone. Whatever happens afterwards (more clicks,
  callbacks, time passing), the auto-advance timer cannot fire before 5000 ms have
  passed since the click.
\<close>

theorem manual_click_restarts_auto_advance:
  assumes "run es (initGallerySlideshowWith imgs (blank True pb nb)) = Some s"
    and "click = ClickNext \<and> nb \<or> click = ClickPrev \<and> pb"
    and "step click s = Some s1"
    and "run es' s1 = Some s2"
  shows "intervals s1 = [\<lparr>handle = nextHandle s, period = 5000, due = clock s + 5000\<rparr>] \<and>
         autoSlideInterval s1 = Some (nextHandle s) \<and>
         (\<forall>h. step (Interval h) s2 \<noteq> None \<longrightarrow> clock s + 5000 \<le> clock s2)"
proof -
  have p: "galleryTrack (blank True pb nb)" "galleryNext (blank True pb nb) = nb"
    "galleryPrev (blank True pb nb) = pb" "\<not> nextClick (blank True pb nb)"
    "\<not> prevClick (blank True pb nb)"
    by (simp_all add: blank_def)
  from timer_run[OF timer_init assms(1)] have ti: "timer_inv s" .
  from run_listeners[OF assms(1)] init_state(9,10)[OF p(1), of imgs] p
  have l: "nextClick s = nb" "prevClick s = pb" by simp_all
  have s1: "s1 = restartAutoSlide (nextSlide s) \<or> s1 = restartAutoSlide (prevSlide s)"
    using assms(2,3) l by (auto simp: nextButtonClick_def prevButtonClick_def)
  have t1: "timer_inv (nextSlide s)" "timer_inv (prevSlide s)" using ti by simp_all
  from s1 restartAutoSlide_single[OF t1(1)] restartAutoSlide_single[OF t1(2)]
  have i1: "intervals s1 = [\<lparr>handle = nextHandle s, period = 5000, due = clock s + 5000\<rparr>]"
    by auto
  from s1 restartAutoSlide_timer[of "nextSlide s"] restartAutoSlide_timer[of "prevSlide s"]
  have h1: "autoSlideInterval s1 = Some (nextHandle s)" by auto
  have c1: "clock s1 = clock s" using s1 by auto
  have "not_before (clock s + 5000) s1"
    using i1 c1 by (simp add: not_before_def)
  from not_before_run[OF this assms(4)] have nb2: "not_before (clock s + 5000) s2" .
  have "clock s + 5000 \<le> clock s2" if "step (Interval h) s2 \<noteq> None" for h
  proof -
    from that obtain s3 where "step (Interval h) s2 = Some s3" by auto
    from interval_enabled[OF this] nb2 show ?thesis by (auto simp: not_before_def)
  qed
  with i1 h1 show ?thesis by blast
qed

theorem manual_click_restarts_auto_advance_witness:
  "run [Elapse 1200, Timeout 0, Elapse 3700]
     (initGallerySlideshowWith galleryImages (blank True True True)) = Some before_click \<and>
   (ClickNext = ClickNext \<and> True \<or> ClickNext = ClickPrev \<and> True) \<and>
   step ClickNext before_click = Some after_click \<and>
   run [Elapse 5000] after_click = Some period_later \<and>
   clock before_click = 4900 \<and>
   intervals before_click = [\<lparr>handle = 1, period = 5000, due = 5000\<rparr>] \<and>
   intervals after_click = [\<lparr>handle = nextHandle before_click, period = 5000,
                            due = clock before_click + 5000\<rparr>] \<and>
   step (Interval 2) period_later \<noteq> None \<and>
   clock before_click + 5000 \<le> clock period_later"
proof -
  have "run ([Elapse 1200, Timeout 0] @ [Elapse 3700]) opened = Some before_click"
    by (rule run_trans[OF rested_run before_click_run])
  then have a: "run [Elapse 1200, Timeout 0, Elapse 3700]
     (initGallerySlideshowWith galleryImages (blank True True True)) = Some before_click"
    by (simp only: append_Cons append_Nil opened_eq)
  have b: "ClickNext = ClickNext \<and> True \<or> ClickNext = ClickPrev \<and> True" by simp
  have c: "step ClickNext before_click = Some after_click" by (simp add: after_click_def)
  have d: "run [Elapse 5000] after_click = Some period_later" by (simp add: period_later_def)
  have e: "clock before_click = 4900 \<and>
           intervals before_click = [\<lparr>handle = 1, period = 5000, due = 5000\<rparr>]"
    by (simp add: before_click_fields)
  have f: "step (Interval 2) period_later \<noteq> None" by (simp add: period_later_fields)
  from manual_click_restarts_auto_advance[OF a b c d] a b c d e f show ?thesis by blast
qed

end
